theory Spec2Isabelle
  imports Main
begin

section \<open>Bulk update of a Postman collection (src/app.py)\<close>

text \<open>
  The embedding follows \<^verbatim>\<open>bulk_update\<close> and its inner \<^verbatim>\<open>process_items\<close> of
  \<^verbatim>\<open>src/app.py\<close>. The JSON document is typed the way the code reads it: a field whose
  presence the code tests (\<^verbatim>\<open>'header' in ...\<close>, \<^verbatim>\<open>.get(...)\<close>) or whose absence makes a
  lookup raise is an \<open>option\<close>; keys, values and path or host segments are strings.
  Every exception of the source is a value \<open>Inl e\<close>; the handler of \<^verbatim>\<open>bulk_update\<close>
  turns it into the status 500 answer.
\<close>

subsection \<open>Python exceptions and lookups\<close>

datatype py_error =
    KeyError string
  | IndexError
  | ValueError
  | FileNotFoundError

definition ebind :: "py_error + 'a \<Rightarrow> ('a \<Rightarrow> py_error + 'b) \<Rightarrow> py_error + 'b" where
  "ebind m f = (case m of Inl e \<Rightarrow> Inl e | Inr x \<Rightarrow> f x)"

text \<open>\<^verbatim>\<open>d[name]\<close> on a dictionary: KeyError when the key is missing.\<close>

definition getitem :: "string \<Rightarrow> 'a option \<Rightarrow> py_error + 'a" where
  "getitem name field = (case field of None \<Rightarrow> Inl (KeyError name) | Some v \<Rightarrow> Inr v)"

text \<open>\<^verbatim>\<open>xs[i]\<close> on a list, for an index that is not negative.\<close>

definition index :: "'a list \<Rightarrow> nat \<Rightarrow> py_error + 'a" where
  "index xs i = (if i < length xs then Inr (xs ! i) else Inl IndexError)"

subsection \<open>Python string operations\<close>

text \<open>
  \<^verbatim>\<open>s.split(sep)\<close>: the pieces between the occurrences of \<open>sep\<close>, found from the left and
  not overlapping. The empty separator raises ValueError.
\<close>

function split_ne :: "string \<Rightarrow> string \<Rightarrow> string list" where
  "split_ne sep [] = [[]]"
| "split_ne sep (c # cs) =
     (if sep \<noteq> [] \<and> take (length sep) (c # cs) = sep
      then [] # split_ne sep (drop (length sep) (c # cs))
      else (case split_ne sep cs of
              [] \<Rightarrow> [[c]]
            | p # ps \<Rightarrow> (c # p) # ps))"
  by pat_completeness auto
termination
  by (relation "measure (\<lambda>(sep, s). length s)") auto

definition str_split :: "string \<Rightarrow> string \<Rightarrow> py_error + string list" where
  "str_split s sep = (if sep = [] then Inl ValueError else Inr (split_ne sep s))"

text \<open>\<^verbatim>\<open>sub in s\<close> on strings.\<close>

fun contains :: "string \<Rightarrow> string \<Rightarrow> bool" where
  "contains sub [] = (sub = [])"
| "contains sub (c # cs) = (take (length sub) (c # cs) = sub \<or> contains sub cs)"

text \<open>\<^verbatim>\<open>sep.join(xs)\<close>.\<close>

fun join :: "string \<Rightarrow> string list \<Rightarrow> string" where
  "join sep [] = []"
| "join sep [x] = x"
| "join sep (x # y # ys) = x @ sep @ join sep (y # ys)"

subsection \<open>The document\<close>

record header =
  h_key :: string
  h_value :: string
  h_type :: "string option"

record query_param =
  q_key :: string
  q_value :: string

text \<open>
  \<^verbatim>\<open>protocol\<close> has three states in the code: the key is missing, or it holds \<^verbatim>\<open>None\<close>
  (line 143 stores it), or it holds a string.
\<close>

datatype py_str = PyNone | PyStr string

record url_obj =
  raw :: string
  protocol :: "py_str option"
  host :: "string list option"
  path :: "string list option"
  query :: "query_param list option"

datatype url = UrlStr string | UrlObj url_obj

record request =
  header :: "header list option"
  url :: "url option"

datatype item = Item (i_request: "request option") (i_item: "item list option")

record 'i collection =
  info :: "'i option"
  item :: "item list option"

record directive =
  action :: "string option"
  d_key :: "string option"
  d_value :: "string option"
  d_type :: "string option"

type_synonym updates = "(string \<times> directive) list"

subsection \<open>Headers (lines 105 to 131)\<close>

text \<open>
  The loop of lines 113 to 117: the first header whose key is the directive's has its
  value replaced, and the loop stops there. The flag is \<^verbatim>\<open>header_exists\<close>.
\<close>

fun header_loop :: "directive \<Rightarrow> header list \<Rightarrow> py_error + (header list \<times> bool)" where
  "header_loop d [] = Inr ([], False)"
| "header_loop d (h # hs) =
     ebind (getitem ''key'' (d_key d)) (\<lambda>k.
       if h_key h = k
       then ebind (getitem ''value'' (d_value d)) (\<lambda>v. Inr (h\<lparr>h_value := v\<rparr> # hs, True))
       else ebind (header_loop d hs) (\<lambda>(hs', found). Inr (h # hs', found)))"

text \<open>The comprehension of lines 128 to 131; the directive's key is read once per header.\<close>

fun header_filter :: "directive \<Rightarrow> header list \<Rightarrow> py_error + header list" where
  "header_filter d [] = Inr []"
| "header_filter d (h # hs) =
     ebind (getitem ''key'' (d_key d)) (\<lambda>k.
       ebind (header_filter d hs) (\<lambda>hs'.
         Inr (if h_key h \<noteq> k then h # hs' else hs')))"

definition new_header :: "directive \<Rightarrow> py_error + header" where
  "new_header d =
     ebind (getitem ''key'' (d_key d)) (\<lambda>k.
       ebind (getitem ''value'' (d_value d)) (\<lambda>v.
         Inr \<lparr>h_key = k, h_value = v,
              h_type = Some (case d_type d of None \<Rightarrow> ''text'' | Some t \<Rightarrow> t)\<rparr>))"

text \<open>Lines 108 and 109: a missing header list is created empty before the loop.\<close>

definition headers_of :: "request \<Rightarrow> header list" where
  "headers_of r = (case header r of None \<Rightarrow> [] | Some hs \<Rightarrow> hs)"

definition apply_headers :: "directive \<Rightarrow> request \<Rightarrow> py_error + request" where
  "apply_headers d r =
     ebind (getitem ''action'' (action d)) (\<lambda>a.
       if a = ''add'' then
         (let hs = headers_of r in
          ebind (header_loop d hs) (\<lambda>(hs', header_exists).
            if \<not> header_exists
            then ebind (new_header d) (\<lambda>h. Inr (r\<lparr>header := Some (hs' @ [h])\<rparr>))
            else Inr (r\<lparr>header := Some hs'\<rparr>)))
       else if a = ''remove'' then
         (case header r of
            None \<Rightarrow> Inr r
          | Some hs \<Rightarrow> ebind (header_filter d hs) (\<lambda>hs'. Inr (r\<lparr>header := Some hs'\<rparr>)))
       else Inr r)"

subsection \<open>URL: string form to object form (lines 138 to 147)\<close>

definition normalize_url :: "string \<Rightarrow> py_error + url_obj" where
  "normalize_url s =
     ebind (str_split s ''?'') (\<lambda>url_parts.
     ebind (index url_parts 0) (\<lambda>base.
     ebind (if contains ''://'' base
            then ebind (str_split base ''://'') (\<lambda>ps.
                 ebind (index ps 0) (\<lambda>p. Inr (PyStr p)))
            else Inr PyNone) (\<lambda>proto.
     ebind (if contains ''://'' base
            then ebind (str_split base ''://'') (\<lambda>ps.
                 ebind (index ps 1) (\<lambda>rest.
                 ebind (str_split rest ''/'') (\<lambda>segs.
                 ebind (index segs 0) (\<lambda>h. str_split h ''.''))))
            else ebind (str_split base ''/'') (\<lambda>segs.
                 ebind (index segs 0) (\<lambda>h. str_split h ''.''))) (\<lambda>hst.
     ebind (if contains ''://'' base
            then ebind (str_split base ''://'') (\<lambda>ps.
                 ebind (index ps 1) (\<lambda>rest.
                 ebind (str_split rest ''/'') (\<lambda>segs. Inr (drop 1 segs))))
            else ebind (str_split base ''/'') (\<lambda>segs. Inr (drop 1 segs))) (\<lambda>pth.
       Inr \<lparr>raw = s, protocol = Some proto, host = Some hst, path = Some pth,
            query = Some []\<rparr>)))))"

subsection \<open>Query parameters (lines 133 to 178)\<close>

text \<open>The loop of lines 154 to 158; the flag is \<^verbatim>\<open>param_exists\<close>.\<close>

fun query_loop :: "directive \<Rightarrow> query_param list \<Rightarrow> py_error + (query_param list \<times> bool)" where
  "query_loop d [] = Inr ([], False)"
| "query_loop d (p # ps) =
     ebind (getitem ''key'' (d_key d)) (\<lambda>k.
       if q_key p = k
       then ebind (getitem ''value'' (d_value d)) (\<lambda>v. Inr (p\<lparr>q_value := v\<rparr> # ps, True))
       else ebind (query_loop d ps) (\<lambda>(ps', found). Inr (p # ps', found)))"

fun query_filter :: "directive \<Rightarrow> query_param list \<Rightarrow> py_error + query_param list" where
  "query_filter d [] = Inr []"
| "query_filter d (q # qs) =
     ebind (getitem ''key'' (d_key d)) (\<lambda>k.
       ebind (query_filter d qs) (\<lambda>qs'.
         Inr (if q_key q \<noteq> k then q # qs' else qs')))"

definition new_param :: "directive \<Rightarrow> py_error + query_param" where
  "new_param d =
     ebind (getitem ''key'' (d_key d)) (\<lambda>k.
       ebind (getitem ''value'' (d_value d)) (\<lambda>v.
         Inr \<lparr>q_key = k, q_value = v\<rparr>))"

text \<open>
  Lines 166 to 171. \<^verbatim>\<open>.get('protocol', 'http')\<close> gives the default only when the key is
  missing; a stored \<^verbatim>\<open>None\<close> is formatted by the f-string as the text \<^verbatim>\<open>None\<close>.
\<close>

definition format_param :: "query_param \<Rightarrow> string" where
  "format_param q = q_key q @ ''='' @ q_value q"

definition protocol_text :: "url_obj \<Rightarrow> string" where
  "protocol_text u =
     (case protocol u of
        None \<Rightarrow> ''http''
      | Some PyNone \<Rightarrow> ''None''
      | Some (PyStr p) \<Rightarrow> p)"

definition rebuild_raw :: "url_obj \<Rightarrow> string" where
  "rebuild_raw u =
     (let query_part = join ''&'' (map format_param (case query u of None \<Rightarrow> [] | Some qs \<Rightarrow> qs));
          path_part = join ''/'' (case path u of None \<Rightarrow> [] | Some ps \<Rightarrow> ps);
          proto = protocol_text u;
          host_part = join ''.'' (case host u of None \<Rightarrow> [] | Some hs \<Rightarrow> hs)
      in proto @ ''://'' @ host_part @ ''/'' @ path_part @ ''?'' @ query_part)"

text \<open>Lines 138 to 150: the url as an object that has a query list.\<close>

definition to_object :: "url \<Rightarrow> py_error + url_obj" where
  "to_object x = (case x of UrlStr s \<Rightarrow> normalize_url s | UrlObj u \<Rightarrow> Inr u)"

definition ensure_query :: "url_obj \<Rightarrow> url_obj" where
  "ensure_query u = (case query u of None \<Rightarrow> u\<lparr>query := Some []\<rparr> | Some qs \<Rightarrow> u)"

definition query_of :: "url_obj \<Rightarrow> query_param list" where
  "query_of u = (case query u of None \<Rightarrow> [] | Some qs \<Rightarrow> qs)"

definition apply_query :: "directive \<Rightarrow> request \<Rightarrow> py_error + request" where
  "apply_query d r =
     (case url r of
        None \<Rightarrow> Inr r
      | Some x \<Rightarrow>
          ebind (to_object x) (\<lambda>u0.
            let u = ensure_query u0 in
            ebind (getitem ''action'' (action d)) (\<lambda>a.
              if a = ''add'' then
                ebind (query_loop d (query_of u)) (\<lambda>(qs', param_exists).
                  ebind (if \<not> param_exists
                         then ebind (new_param d) (\<lambda>q. Inr (qs' @ [q]))
                         else Inr qs') (\<lambda>qs''.
                    let u' = u\<lparr>query := Some qs''\<rparr> in
                    Inr (r\<lparr>url := Some (UrlObj (u'\<lparr>raw := rebuild_raw u'\<rparr>))\<rparr>)))
              else if a = ''remove'' then
                ebind (query_filter d (query_of u)) (\<lambda>qs'.
                  Inr (r\<lparr>url := Some (UrlObj (u\<lparr>query := Some qs'\<rparr>))\<rparr>))
              else Inr (r\<lparr>url := Some (UrlObj u)\<rparr>))))"

subsection \<open>The walk over the item tree (lines 100 to 184)\<close>

definition apply_update :: "string \<times> directive \<Rightarrow> request \<Rightarrow> py_error + request" where
  "apply_update up r =
     (if fst up = ''headers'' then apply_headers (snd up) r
      else if fst up = ''query_params'' then apply_query (snd up) r
      else Inr r)"

fun apply_updates :: "updates \<Rightarrow> request \<Rightarrow> py_error + request" where
  "apply_updates [] r = Inr r"
| "apply_updates (up # ups) r = ebind (apply_update up r) (apply_updates ups)"

fun process_items :: "updates \<Rightarrow> item list \<Rightarrow> py_error + item list"
  and process_item :: "updates \<Rightarrow> item \<Rightarrow> py_error + item" where
  "process_items ups [] = Inr []"
| "process_items ups (it # its) =
     ebind (process_item ups it) (\<lambda>it'.
       ebind (process_items ups its) (\<lambda>its'. Inr (it' # its')))"
| "process_item ups (Item rq sub) =
     ebind (case rq of
              None \<Rightarrow> Inr None
            | Some r \<Rightarrow> ebind (apply_updates ups r) (\<lambda>r'. Inr (Some r'))) (\<lambda>rq'.
       case sub of
         None \<Rightarrow> Inr (Item rq' None)
       | Some its \<Rightarrow> ebind (process_items ups its) (\<lambda>its'. Inr (Item rq' (Some its'))))"

subsection \<open>The endpoint (lines 83 to 195)\<close>

text \<open>
  The body of the POST and the answer. The upload folder is a map from file paths to
  the documents stored there; \<^verbatim>\<open>secure_filename\<close> belongs to werkzeug and is a parameter.
  A file that cannot be opened raises inside the \<^verbatim>\<open>try\<close>, like every other exception
  there, and the document is written back only when the walk has returned.
\<close>

record data =
  filename :: "string option"
  updates :: "updates option"

datatype 'i response =
    Bad_Request string
  | Server_Error py_error
  | Success "'i collection"

definition open_file :: "(string \<rightharpoonup> 'i collection) \<Rightarrow> string \<Rightarrow> py_error + 'i collection" where
  "open_file files filepath =
     (case files filepath of None \<Rightarrow> Inl FileNotFoundError | Some c \<Rightarrow> Inr c)"

definition bulk_update ::
  "(string \<Rightarrow> string) \<Rightarrow> (string \<rightharpoonup> 'i collection) \<Rightarrow> data \<Rightarrow>
     'i response \<times> (string \<rightharpoonup> 'i collection)" where
  "bulk_update secure_filename files dat =
     (case filename dat of
        None \<Rightarrow> (Bad_Request ''Missing required data'', files)
      | Some fname \<Rightarrow>
          (case updates dat of
             None \<Rightarrow> (Bad_Request ''Missing required data'', files)
           | Some ups \<Rightarrow>
               (let filepath = ''uploads/'' @ secure_filename fname in
                case ebind (open_file files filepath) (\<lambda>c.
                       ebind (getitem ''item'' (item c)) (\<lambda>its.
                         ebind (process_items ups its) (\<lambda>its'.
                           Inr (c\<lparr>item := Some its'\<rparr>)))) of
                  Inl e \<Rightarrow> (Server_Error e, files)
                | Inr c' \<Rightarrow> (Success c', files(filepath \<mapsto> c')))))"

subsection \<open>Notions used to state the properties\<close>

text \<open>How many entries of a list carry a given key.\<close>

definition header_count :: "string \<Rightarrow> header list \<Rightarrow> nat" where
  "header_count k hs = length (filter (\<lambda>h. h_key h = k) hs)"

definition param_count :: "string \<Rightarrow> query_param list \<Rightarrow> nat" where
  "param_count k qs = length (filter (\<lambda>q. q_key q = k) qs)"

text \<open>
  The request nodes of an item tree, in the order of the walk: the request of an item
  first, then those of its nested items, whether or not the item has a request.
\<close>

fun requests_of :: "item list \<Rightarrow> request list"
  and item_requests :: "item \<Rightarrow> request list" where
  "requests_of [] = []"
| "requests_of (it # its) = item_requests it @ requests_of its"
| "item_requests (Item rq sub) =
     (case rq of None \<Rightarrow> [] | Some r \<Rightarrow> [r]) @
     (case sub of None \<Rightarrow> [] | Some its \<Rightarrow> requests_of its)"

text \<open>
  When an update reads a field that its directive does not have, on a given request:
  an add reads the key and the value on every request it is applied to (for
  query_params, every request with a url); a remove reads the key once per entry of
  the list it filters, so only when that list is not empty.
\<close>

definition missing_field_read :: "string \<times> directive \<Rightarrow> request \<Rightarrow> bool" where
  "missing_field_read up r =
     (if fst up = ''headers'' then
        (action (snd up) = Some ''add'' \<and> (d_key (snd up) = None \<or> d_value (snd up) = None)) \<or>
        (action (snd up) = Some ''remove'' \<and> d_key (snd up) = None \<and> headers_of r \<noteq> [])
      else if fst up = ''query_params'' then
        (case url r of
           None \<Rightarrow> False
         | Some x \<Rightarrow>
             (action (snd up) = Some ''add'' \<and>
                (d_key (snd up) = None \<or> d_value (snd up) = None)) \<or>
             (action (snd up) = Some ''remove'' \<and> d_key (snd up) = None \<and>
                (case x of UrlStr s \<Rightarrow> False | UrlObj u \<Rightarrow> query_of u \<noteq> [])))
      else False)"

text \<open>The depth of nesting of an item list: a list of items without nested items has depth 1.\<close>

fun depth :: "item list \<Rightarrow> nat"
  and item_depth :: "item \<Rightarrow> nat" where
  "depth [] = 0"
| "depth (it # its) = max (item_depth it) (depth its)"
| "item_depth (Item rq sub) = Suc (case sub of None \<Rightarrow> 0 | Some its \<Rightarrow> depth its)"

section \<open>Basic facts\<close>

lemma ebind_Inl [simp]: "ebind (Inl e) f = Inl e"
  by (simp add: ebind_def)

lemma ebind_Inr [simp]: "ebind (Inr x) f = f x"
  by (simp add: ebind_def)

lemma getitem_None [simp]: "getitem n None = Inl (KeyError n)"
  by (simp add: getitem_def)

lemma getitem_Some [simp]: "getitem n (Some v) = Inr v"
  by (simp add: getitem_def)

subsection \<open>Splitting\<close>

lemma split_ne_not_Nil: "split_ne sep s \<noteq> []"
  by (induction sep s rule: split_ne.induct) (auto split: list.splits)

lemma split_ne_length_pos: "Suc 0 \<le> length (split_ne sep s)"
  using split_ne_not_Nil [of sep s] by (cases "split_ne sep s") simp_all

text \<open>A string that contains the separator splits into two pieces at least.\<close>

lemma contains_split_ne_length:
  "sep \<noteq> [] \<Longrightarrow> contains sep s \<Longrightarrow> 2 \<le> length (split_ne sep s)"
proof (induction sep s rule: split_ne.induct)
  case (1 sep)
  then show ?case by simp
next
  case (2 sep c cs)
  show ?case
  proof (cases "take (length sep) (c # cs) = sep")
    case True
    have "Suc 0 \<le> length (split_ne sep (drop (length sep) (c # cs)))"
      by (rule split_ne_length_pos)
    with True "2.prems"(1) show ?thesis by simp
  next
    case False
    with "2.prems" have "contains sep cs" by simp
    with False "2.IH"(2) "2.prems" have "2 \<le> length (split_ne sep cs)" by simp
    with False show ?thesis by (auto split: list.splits)
  qed
qed

subsection \<open>The header loops\<close>

lemma header_loop_result:
  assumes "d_key d = Some K" and "d_value d = Some V"
  shows "header_loop d hs =
           Inr (takeWhile (\<lambda>h. h_key h \<noteq> K) hs @
                  (case dropWhile (\<lambda>h. h_key h \<noteq> K) hs of
                     [] \<Rightarrow> []
                   | h # rest \<Rightarrow> h\<lparr>h_value := V\<rparr> # rest),
                \<exists>h \<in> set hs. h_key h = K)"
  using assms by (induction hs) auto

lemma header_count_first_match:
  "header_count K (takeWhile (\<lambda>h. h_key h \<noteq> K) hs @
      (case dropWhile (\<lambda>h. h_key h \<noteq> K) hs of
         [] \<Rightarrow> [\<lparr>h_key = K, h_value = V, h_type = T\<rparr>]
       | h # rest \<Rightarrow> h\<lparr>h_value := V\<rparr> # rest)) = max 1 (header_count K hs)"
  by (induction hs) (auto simp: header_count_def)

lemma headers_add_result:
  assumes "action d = Some ''add''" and "d_key d = Some K" and "d_value d = Some V"
  shows "apply_headers d r =
           Inr (r\<lparr>header := Some
             (takeWhile (\<lambda>h. h_key h \<noteq> K) (headers_of r) @
                (case dropWhile (\<lambda>h. h_key h \<noteq> K) (headers_of r) of
                   [] \<Rightarrow> [\<lparr>h_key = K, h_value = V,
                            h_type = Some (case d_type d of None \<Rightarrow> ''text'' | Some t \<Rightarrow> t)\<rparr>]
                 | h # rest \<Rightarrow> h\<lparr>h_value := V\<rparr> # rest))\<rparr>)"
proof (cases "\<exists>h \<in> set (headers_of r). h_key h = K")
  case True
  then have "dropWhile (\<lambda>h. h_key h \<noteq> K) (headers_of r) \<noteq> []"
    by (auto simp: dropWhile_eq_Nil_conv)
  then obtain h rest where dw: "dropWhile (\<lambda>h. h_key h \<noteq> K) (headers_of r) = h # rest"
    by (cases "dropWhile (\<lambda>h. h_key h \<noteq> K) (headers_of r)") auto
  from True have ex: "\<not> (\<forall>h \<in> set (headers_of r). h_key h \<noteq> K)"
    by blast
  show ?thesis
    by (simp add: apply_headers_def Let_def header_loop_result [OF assms(2,3)] dw ex assms(1))
next
  case False
  then have dw: "dropWhile (\<lambda>h. h_key h \<noteq> K) (headers_of r) = []"
    by (auto simp: dropWhile_eq_Nil_conv)
  show ?thesis
    unfolding apply_headers_def Let_def header_loop_result [OF assms(2,3)] dw
    using False assms by (simp add: new_header_def)
qed

lemma header_filter_result:
  "d_key d = Some K \<Longrightarrow> header_filter d hs = Inr (filter (\<lambda>h. h_key h \<noteq> K) hs)"
  by (induction hs) auto

subsection \<open>String urls\<close>

lemma normalize_url_total:
  "\<exists>p h pa. normalize_url s =
     Inr \<lparr>raw = s, protocol = Some p, host = Some h, path = Some pa, query = Some []\<rparr>"
proof -
  let ?base = "split_ne ''?'' s ! 0"
  show ?thesis
  proof (cases "contains ''://'' ?base")
    case True
    then have "Suc 0 < length (split_ne ''://'' ?base)"
      using contains_split_ne_length [of "''://''" ?base] by simp
    with True show ?thesis
      using split_ne_length_pos
      by (simp add: normalize_url_def str_split_def index_def split_ne_not_Nil)
  next
    case False
    then show ?thesis
      using split_ne_length_pos
      by (simp add: normalize_url_def str_split_def index_def split_ne_not_Nil)
  qed
qed

lemma to_object_total:
  "\<exists>u0. to_object x = Inr u0 \<and>
     (\<forall>s. x = UrlStr s \<longrightarrow> raw u0 = s \<and> query u0 = Some []) \<and>
     (\<forall>u. x = UrlObj u \<longrightarrow> u0 = u)"
proof (cases x)
  case (UrlStr s)
  from normalize_url_total [of s] obtain u0
    where "normalize_url s = Inr u0" and "raw u0 = s" and "query u0 = Some []"
    by fastforce
  with UrlStr show ?thesis by (simp add: to_object_def)
next
  case (UrlObj u)
  then show ?thesis by (simp add: to_object_def)
qed

subsection \<open>The query loops\<close>

lemma query_loop_result:
  assumes "d_key d = Some K" and "d_value d = Some V"
  shows "query_loop d qs =
           Inr (takeWhile (\<lambda>q. q_key q \<noteq> K) qs @
                  (case dropWhile (\<lambda>q. q_key q \<noteq> K) qs of
                     [] \<Rightarrow> []
                   | q # rest \<Rightarrow> q\<lparr>q_value := V\<rparr> # rest),
                \<exists>q \<in> set qs. q_key q = K)"
  using assms by (induction qs) auto

lemma param_count_first_match:
  "param_count K (takeWhile (\<lambda>q. q_key q \<noteq> K) qs @
      (case dropWhile (\<lambda>q. q_key q \<noteq> K) qs of
         [] \<Rightarrow> [\<lparr>q_key = K, q_value = V\<rparr>]
       | q # rest \<Rightarrow> q\<lparr>q_value := V\<rparr> # rest)) = max 1 (param_count K qs)"
  by (induction qs) (auto simp: param_count_def)

lemma query_filter_result:
  "d_key d = Some K \<Longrightarrow> query_filter d qs = Inr (filter (\<lambda>q. q_key q \<noteq> K) qs)"
  by (induction qs) auto

lemma rebuild_raw_ignores_raw: "rebuild_raw (u\<lparr>raw := x\<rparr>) = rebuild_raw u"
  by (simp add: rebuild_raw_def protocol_text_def)

lemma query_of_ensure_query: "query_of (ensure_query u) = query_of u"
  by (simp add: ensure_query_def query_of_def split: option.splits)

lemma ensure_query_update: "ensure_query u\<lparr>query := Some qs\<rparr> = u\<lparr>query := Some qs\<rparr>"
  by (simp add: ensure_query_def split: option.splits)

text \<open>Lines 153 to 164 with a directive that has its key and its value.\<close>

lemma query_add_step:
  assumes "d_key d = Some K" and "d_value d = Some V"
  shows "ebind (query_loop d qs) (\<lambda>(qs', param_exists).
           ebind (if \<not> param_exists
                  then ebind (new_param d) (\<lambda>q. Inr (qs' @ [q]))
                  else Inr qs') f)
         = f (takeWhile (\<lambda>q. q_key q \<noteq> K) qs @
               (case dropWhile (\<lambda>q. q_key q \<noteq> K) qs of
                  [] \<Rightarrow> [\<lparr>q_key = K, q_value = V\<rparr>]
                | q # rest \<Rightarrow> q\<lparr>q_value := V\<rparr> # rest))"
proof (cases "\<exists>q \<in> set qs. q_key q = K")
  case True
  then have "dropWhile (\<lambda>q. q_key q \<noteq> K) qs \<noteq> []"
    by (auto simp: dropWhile_eq_Nil_conv)
  then obtain q rest where dw: "dropWhile (\<lambda>q. q_key q \<noteq> K) qs = q # rest"
    by (cases "dropWhile (\<lambda>q. q_key q \<noteq> K) qs") auto
  from True have ex: "\<not> (\<forall>q \<in> set qs. q_key q \<noteq> K)"
    by blast
  show ?thesis
    by (simp add: query_loop_result [OF assms] dw ex)
next
  case False
  then have dw: "dropWhile (\<lambda>q. q_key q \<noteq> K) qs = []"
    by (auto simp: dropWhile_eq_Nil_conv)
  show ?thesis
    unfolding query_loop_result [OF assms] dw
    using False assms by (simp add: new_param_def)
qed

lemma query_add_result:
  assumes "action d = Some ''add''" and "d_key d = Some K" and "d_value d = Some V"
    and "url r = Some x" and "to_object x = Inr u0"
  shows "apply_query d r =
           Inr (r\<lparr>url := Some (UrlObj
             (let u' = u0\<lparr>query := Some
                   (takeWhile (\<lambda>q. q_key q \<noteq> K) (query_of u0) @
                     (case dropWhile (\<lambda>q. q_key q \<noteq> K) (query_of u0) of
                        [] \<Rightarrow> [\<lparr>q_key = K, q_value = V\<rparr>]
                      | q # rest \<Rightarrow> q\<lparr>q_value := V\<rparr> # rest))\<rparr>
              in u'\<lparr>raw := rebuild_raw u'\<rparr>))\<rparr>)"
  using assms(1,4,5)
  by (simp add: apply_query_def Let_def query_add_step [OF assms(2,3)]
      query_of_ensure_query ensure_query_update)

lemma query_remove_result:
  assumes "action d = Some ''remove''" and "d_key d = Some K"
    and "url r = Some x" and "to_object x = Inr u0"
  shows "apply_query d r =
           Inr (r\<lparr>url := Some (UrlObj
             (u0\<lparr>query := Some (filter (\<lambda>q. q_key q \<noteq> K) (query_of u0))\<rparr>))\<rparr>)"
  using assms
  by (simp add: apply_query_def Let_def query_filter_result
      query_of_ensure_query ensure_query_update)

subsection \<open>Results of the error monad\<close>

lemma ebind_eq_Inr: "ebind m f = Inr y \<longleftrightarrow> (\<exists>x. m = Inr x \<and> f x = Inr y)"
  by (cases m) simp_all

lemma ebind_eq_Inl: "ebind m f = Inl e \<longleftrightarrow> m = Inl e \<or> (\<exists>x. m = Inr x \<and> f x = Inl e)"
  by (cases m) simp_all

subsection \<open>The walk and the request nodes\<close>

lemma process_requests:
  "process_items ups its = Inr its' \<Longrightarrow>
     map Inr (requests_of its') = map (apply_updates ups) (requests_of its)"
  "process_item ups it = Inr it' \<Longrightarrow>
     map Inr (item_requests it') = map (apply_updates ups) (item_requests it)"
proof (induction ups its and ups it arbitrary: its' and it'
    rule: process_items_process_item.induct)
  case (1 ups)
  then show ?case by simp
next
  case (2 ups it its)
  from "2.prems" obtain a b where a: "process_item ups it = Inr a"
    and b: "process_items ups its = Inr b" and r: "its' = a # b"
    by (auto simp: ebind_eq_Inr)
  from "2.IH"(1) [OF a] "2.IH"(2) [OF b] r show ?case by simp
next
  case (3 ups rq sub)
  show ?case
  proof (cases sub)
    case None
    with "3.prems" show ?thesis
      by (cases rq) (auto simp: ebind_eq_Inr)
  next
    case (Some its)
    with "3.prems" obtain rq' b where rq': "(case rq of None \<Rightarrow> Inr None
              | Some r \<Rightarrow> ebind (apply_updates ups r) (\<lambda>r'. Inr (Some r'))) = Inr rq'"
      and b: "process_items ups its = Inr b" and r: "it' = Item rq' (Some b)"
      by (auto simp: ebind_eq_Inr)
    from "3.IH" [OF Some b] have "map Inr (requests_of b) = map (apply_updates ups) (requests_of its)" .
    with rq' r Some show ?thesis
      by (cases rq) (auto simp: ebind_eq_Inr)
  qed
qed

lemma process_depth:
  "process_items ups its = Inr its' \<Longrightarrow> depth its' = depth its"
  "process_item ups it = Inr it' \<Longrightarrow> item_depth it' = item_depth it"
proof (induction ups its and ups it arbitrary: its' and it'
    rule: process_items_process_item.induct)
  case (1 ups)
  then show ?case by simp
next
  case (2 ups it its)
  from "2.prems" obtain a b where a: "process_item ups it = Inr a"
    and b: "process_items ups its = Inr b" and r: "its' = a # b"
    by (auto simp: ebind_eq_Inr)
  from "2.IH"(1) [OF a] "2.IH"(2) [OF b] r show ?case by simp
next
  case (3 ups rq sub)
  show ?case
  proof (cases sub)
    case None
    with "3.prems" show ?thesis
      by (auto simp: ebind_eq_Inr)
  next
    case (Some its)
    with "3.prems" obtain rq' b where rq': "(case rq of None \<Rightarrow> Inr None
              | Some r \<Rightarrow> ebind (apply_updates ups r) (\<lambda>r'. Inr (Some r'))) = Inr rq'"
      and b: "process_items ups its = Inr b" and r: "it' = Item rq' (Some b)"
      by (auto simp: ebind_eq_Inr)
    from "3.IH" [OF Some b] r Some show ?thesis by simp
  qed
qed

lemma process_total:
  "(\<forall>r \<in> set (requests_of its). \<exists>r'. apply_updates ups r = Inr r') \<Longrightarrow>
     \<exists>its'. process_items ups its = Inr its'"
  "(\<forall>r \<in> set (item_requests it). \<exists>r'. apply_updates ups r = Inr r') \<Longrightarrow>
     \<exists>it'. process_item ups it = Inr it'"
proof (induction ups its and ups it rule: process_items_process_item.induct)
  case (1 ups)
  then show ?case by simp
next
  case (2 ups it its)
  from "2.prems" "2.IH"(1) obtain a where a: "process_item ups it = Inr a" by auto
  from "2.prems" "2.IH"(2) obtain b where b: "process_items ups its = Inr b" by auto
  from a b show ?case by simp
next
  case (3 ups rq sub)
  from "3.prems" obtain rq' where rq': "(case rq of None \<Rightarrow> Inr None
              | Some r \<Rightarrow> ebind (apply_updates ups r) (\<lambda>r'. Inr (Some r'))) = Inr rq'"
    by (cases rq) auto
  show ?case
  proof (cases sub)
    case None
    with rq' show ?thesis by simp
  next
    case (Some its)
    with "3.prems" "3.IH" [OF Some] obtain b where "process_items ups its = Inr b"
      by auto
    with rq' Some show ?thesis by simp
  qed
qed

lemma process_success_requests:
  assumes "process_items ups its = Inr its'" and "r \<in> set (requests_of its)"
  shows "\<exists>r'. apply_updates ups r = Inr r'"
proof -
  from assms(2) have "apply_updates ups r \<in> set (map (apply_updates ups) (requests_of its))"
    by simp
  then have "apply_updates ups r \<in> set (map Inr (requests_of its'))"
    using process_requests(1) [OF assms(1)] by simp
  then show ?thesis by auto
qed

subsection \<open>Directives without a key or a value\<close>

lemma header_loop_missing_field:
  assumes "d_key d = None \<or> d_value d = None"
  shows "(\<exists>e. header_loop d hs = Inl e) \<or> (\<exists>hs'. header_loop d hs = Inr (hs', False))"
proof (induction hs)
  case Nil
  then show ?case by simp
next
  case (Cons h hs)
  show ?case
  proof (cases "d_key d")
    case None
    then show ?thesis by simp
  next
    case (Some k)
    with assms have v: "d_value d = None" by simp
    from Cons Some v show ?thesis by (cases "h_key h = k") auto
  qed
qed

lemma new_header_missing_field:
  "d_key d = None \<or> d_value d = None \<Longrightarrow> \<exists>e. new_header d = Inl e"
  by (cases "d_key d") (auto simp: new_header_def)

lemma headers_add_missing_field:
  assumes "action d = Some ''add''" and "d_key d = None \<or> d_value d = None"
  shows "\<exists>e. apply_headers d r = Inl e"
  using header_loop_missing_field [OF assms(2), of "headers_of r"]
    new_header_missing_field [OF assms(2)] assms(1)
  by (auto simp: apply_headers_def Let_def)

lemma header_filter_missing_key:
  "d_key d = None \<Longrightarrow> hs \<noteq> [] \<Longrightarrow> header_filter d hs = Inl (KeyError ''key'')"
  by (cases hs) simp_all

lemma headers_remove_missing_key:
  assumes "action d = Some ''remove''" and "d_key d = None" and "headers_of r \<noteq> []"
  shows "\<exists>e. apply_headers d r = Inl e"
  using assms header_filter_missing_key [OF assms(2), of "headers_of r"]
  by (cases "header r") (auto simp: apply_headers_def headers_of_def)

lemma query_loop_missing_field:
  assumes "d_key d = None \<or> d_value d = None"
  shows "(\<exists>e. query_loop d qs = Inl e) \<or> (\<exists>qs'. query_loop d qs = Inr (qs', False))"
proof (induction qs)
  case Nil
  then show ?case by simp
next
  case (Cons q qs)
  show ?case
  proof (cases "d_key d")
    case None
    then show ?thesis by simp
  next
    case (Some k)
    with assms have v: "d_value d = None" by simp
    from Cons Some v show ?thesis by (cases "q_key q = k") auto
  qed
qed

lemma new_param_missing_field:
  "d_key d = None \<or> d_value d = None \<Longrightarrow> \<exists>e. new_param d = Inl e"
  by (cases "d_key d") (auto simp: new_param_def)

lemma query_add_missing_field:
  assumes "action d = Some ''add''" and "d_key d = None \<or> d_value d = None"
    and "url r = Some x"
  shows "\<exists>e. apply_query d r = Inl e"
proof -
  from to_object_total [of x] obtain u0 where u0: "to_object x = Inr u0" by blast
  from query_loop_missing_field [OF assms(2), of "query_of (ensure_query u0)"]
    new_param_missing_field [OF assms(2)] assms(1,3) u0
  show ?thesis
    by (auto simp: apply_query_def Let_def)
qed

lemma query_filter_missing_key:
  "d_key d = None \<Longrightarrow> qs \<noteq> [] \<Longrightarrow> query_filter d qs = Inl (KeyError ''key'')"
  by (cases qs) simp_all

lemma query_remove_missing_key:
  assumes "action d = Some ''remove''" and "d_key d = None"
    and "url r = Some (UrlObj u)" and "query_of u \<noteq> []"
  shows "\<exists>e. apply_query d r = Inl e"
  using assms query_filter_missing_key [OF assms(2,4)]
  by (simp add: apply_query_def Let_def to_object_def query_of_ensure_query)

lemma apply_headers_url: "apply_headers d r = Inr r' \<Longrightarrow> url r' = url r"
  by (auto simp: apply_headers_def Let_def ebind_eq_Inr split: if_splits option.splits)

lemma apply_query_header: "apply_query d r = Inr r' \<Longrightarrow> header r' = header r"
  by (auto simp: apply_query_def Let_def ebind_eq_Inr split: if_splits option.splits)

lemma apply_query_url: "apply_query d r = Inr r' \<Longrightarrow> url r \<noteq> None \<Longrightarrow> url r' \<noteq> None"
  by (auto simp: apply_query_def Let_def ebind_eq_Inr split: if_splits option.splits)

lemma apply_update_url:
  "apply_update up r = Inr r' \<Longrightarrow> url r \<noteq> None \<Longrightarrow> url r' \<noteq> None"
  using apply_headers_url [of "snd up" r r'] apply_query_url [of "snd up" r r']
  by (auto simp: apply_update_def split: if_splits)

lemma apply_updates_fails:
  assumes "b \<in> set ups"
    and "\<And>up r r'. up \<in> set ups \<Longrightarrow> up \<noteq> b \<Longrightarrow> P r \<Longrightarrow> apply_update up r = Inr r' \<Longrightarrow> P r'"
    and "\<And>r. P r \<Longrightarrow> \<exists>e. apply_update b r = Inl e"
    and "P r"
  shows "\<exists>e. apply_updates ups r = Inl e"
  using assms
proof (induction ups arbitrary: r)
  case Nil
  then show ?case by simp
next
  case (Cons up ups)
  show ?case
  proof (cases "up = b")
    case True
    with Cons.prems(3) [OF Cons.prems(4)] show ?thesis by auto
  next
    case False
    with Cons.prems(1) have b: "b \<in> set ups" by simp
    show ?thesis
    proof (cases "apply_update up r")
      case (Inl e)
      then show ?thesis by simp
    next
      case (Inr r')
      from Cons.prems(2) [OF _ False Cons.prems(4) Inr] have p: "P r'" by simp
      have inv: "P s'" if "up' \<in> set ups" "up' \<noteq> b" "P s" "apply_update up' s = Inr s'"
        for up' s s'
        using Cons.prems(2) [of up' s s'] that by simp
      have "\<exists>e. apply_updates ups r' = Inl e"
        by (rule Cons.IH [OF b inv Cons.prems(3) p])
      with Inr show ?thesis by simp
    qed
  qed
qed

lemma missing_field_read_fails:
  assumes "distinct (map fst ups)" and "up \<in> set ups" and "missing_field_read up r"
  shows "\<exists>e. apply_updates ups r = Inl e"
proof -
  have other: "fst up' \<noteq> fst up" if "up' \<in> set ups" "up' \<noteq> up" for up'
    using that assms(1,2) by (metis distinct_map inj_onD)
  let ?d = "snd up"
  consider
      (ha) "fst up = ''headers''" "action ?d = Some ''add''" "d_key ?d = None \<or> d_value ?d = None"
    | (hr) "fst up = ''headers''" "action ?d = Some ''remove''" "d_key ?d = None" "headers_of r \<noteq> []"
    | (qa) "fst up = ''query_params''" "action ?d = Some ''add''"
          "d_key ?d = None \<or> d_value ?d = None" "url r \<noteq> None"
    | (qr) u where "fst up = ''query_params''" "action ?d = Some ''remove''" "d_key ?d = None"
          "url r = Some (UrlObj u)" "query_of u \<noteq> []"
    using assms(3)
    by (auto simp: missing_field_read_def split: if_splits option.splits url.splits)
  then show ?thesis
  proof cases
    case ha
    show ?thesis
    proof (rule apply_updates_fails [where P = "\<lambda>r. True" and b = up])
      show "up \<in> set ups" by (rule assms(2))
      show "\<exists>e. apply_update up r = Inl e" for r
        using headers_add_missing_field [OF ha(2,3)] ha(1) by (simp add: apply_update_def)
    qed simp_all
  next
    case hr
    show ?thesis
    proof (rule apply_updates_fails [where P = "\<lambda>r. headers_of r \<noteq> []" and b = up])
      show "up \<in> set ups" by (rule assms(2))
      show "\<exists>e. apply_update up r = Inl e" if "headers_of r \<noteq> []" for r
        using headers_remove_missing_key [OF hr(2,3) that] hr(1) by (simp add: apply_update_def)
      show "headers_of r' \<noteq> []"
        if "up' \<in> set ups" "up' \<noteq> up" "headers_of r \<noteq> []" "apply_update up' r = Inr r'"
        for up' r r'
        using other [OF that(1,2)] hr(1) that(3,4) apply_query_header [of "snd up'" r r']
        by (auto simp: apply_update_def headers_of_def split: if_splits)
      show "headers_of r \<noteq> []" by (rule hr(4))
    qed
  next
    case qa
    show ?thesis
    proof (rule apply_updates_fails [where P = "\<lambda>r. url r \<noteq> None" and b = up])
      show "up \<in> set ups" by (rule assms(2))
      show "\<exists>e. apply_update up r = Inl e" if "url r \<noteq> None" for r
        using query_add_missing_field [OF qa(2,3)] qa(1) that
        by (auto simp: apply_update_def)
      show "url r' \<noteq> None"
        if "up' \<in> set ups" "up' \<noteq> up" "url r \<noteq> None" "apply_update up' r = Inr r'"
        for up' r r'
        using apply_update_url [OF that(4,3)] .
      show "url r \<noteq> None" by (rule qa(4))
    qed
  next
    case qr
    show ?thesis
    proof (rule apply_updates_fails
        [where P = "\<lambda>r. \<exists>u. url r = Some (UrlObj u) \<and> query_of u \<noteq> []" and b = up])
      show "up \<in> set ups" by (rule assms(2))
      show "\<exists>e. apply_update up r = Inl e"
        if "\<exists>u. url r = Some (UrlObj u) \<and> query_of u \<noteq> []" for r
        using query_remove_missing_key [OF qr(2,3)] qr(1) that
        by (auto simp: apply_update_def)
      show "\<exists>u. url r' = Some (UrlObj u) \<and> query_of u \<noteq> []"
        if "up' \<in> set ups" "up' \<noteq> up" "\<exists>u. url r = Some (UrlObj u) \<and> query_of u \<noteq> []"
          "apply_update up' r = Inr r'"
        for up' r r'
        using other [OF that(1,2)] qr(1) that(3,4) apply_headers_url [of "snd up'" r r']
        by (auto simp: apply_update_def split: if_splits)
      show "\<exists>u. url r = Some (UrlObj u) \<and> query_of u \<noteq> []"
        using qr(4,5) by blast
    qed
  qed
qed

lemma process_items_fails:
  assumes "r \<in> set (requests_of its)" and "apply_updates ups r = Inl e"
  shows "\<exists>e'. process_items ups its = Inl e'"
proof (cases "process_items ups its")
  case (Inl e')
  then show ?thesis by blast
next
  case (Inr its')
  from process_success_requests [OF Inr assms(1)] assms(2) show ?thesis by simp
qed

section \<open>Headers\<close>

text \<open>
  C2, as the claim states it, fails on a request that already has two headers with the
  key: the loop stops at the first match, so the second one stays and two headers carry
  the key afterwards.
\<close>

theorem headers_add_keeps_duplicates:
  "apply_headers
     \<lparr>action = Some ''add'', d_key = Some ''X'', d_value = Some ''new'', d_type = None\<rparr>
     \<lparr>header = Some [\<lparr>h_key = ''X'', h_value = ''1'', h_type = Some ''text''\<rparr>,
                     \<lparr>h_key = ''X'', h_value = ''2'', h_type = Some ''text''\<rparr>],
      url = None\<rparr>
   = Inr \<lparr>header = Some [\<lparr>h_key = ''X'', h_value = ''new'', h_type = Some ''text''\<rparr>,
                          \<lparr>h_key = ''X'', h_value = ''2'', h_type = Some ''text''\<rparr>],
          url = None\<rparr>
   \<and> header_count ''X'' [\<lparr>h_key = ''X'', h_value = ''new'', h_type = Some ''text''\<rparr>,
                         \<lparr>h_key = ''X'', h_value = ''2'', h_type = Some ''text''\<rparr>] = 2"
  by (simp add: apply_headers_def headers_of_def header_count_def)

text \<open>
  C2, amended: a headers add directive with key \<open>K\<close>, value \<open>V\<close> and optional type
  always succeeds. The new header list is the old one (the empty list when the request
  had none) up to the first header with key \<open>K\<close>, then that header with its value set to
  \<open>V\<close> and its type unchanged, then the rest unchanged; when no header has key \<open>K\<close>, the
  old list followed by the new header, whose type is the directive's, or \<open>text\<close>. The
  number of headers with key \<open>K\<close> is the old number, or 1 when there was none: exactly
  one when the request had at most one before.
\<close>

theorem headers_add_first_match_or_append:
  assumes "action d = Some ''add''" and "d_key d = Some K" and "d_value d = Some V"
  shows "\<exists>hs'. apply_headers d r = Inr (r\<lparr>header := Some hs'\<rparr>) \<and>
           hs' = takeWhile (\<lambda>h. h_key h \<noteq> K) (headers_of r) @
                   (case dropWhile (\<lambda>h. h_key h \<noteq> K) (headers_of r) of
                      [] \<Rightarrow> [\<lparr>h_key = K, h_value = V,
                               h_type = Some (case d_type d of None \<Rightarrow> ''text'' | Some t \<Rightarrow> t)\<rparr>]
                    | h # rest \<Rightarrow> h\<lparr>h_value := V\<rparr> # rest) \<and>
           header_count K hs' = max 1 (header_count K (headers_of r)) \<and>
           (header_count K (headers_of r) \<le> 1 \<longrightarrow> header_count K hs' = 1)"
proof -
  let ?hs = "takeWhile (\<lambda>h. h_key h \<noteq> K) (headers_of r) @
               (case dropWhile (\<lambda>h. h_key h \<noteq> K) (headers_of r) of
                  [] \<Rightarrow> [\<lparr>h_key = K, h_value = V,
                           h_type = Some (case d_type d of None \<Rightarrow> ''text'' | Some t \<Rightarrow> t)\<rparr>]
                | h # rest \<Rightarrow> h\<lparr>h_value := V\<rparr> # rest)"
  have run: "apply_headers d r = Inr (r\<lparr>header := Some ?hs\<rparr>)"
    by (rule headers_add_result [OF assms])
  have cnt: "header_count K ?hs = max 1 (header_count K (headers_of r))"
    by (rule header_count_first_match)
  then have one: "header_count K (headers_of r) \<le> 1 \<longrightarrow> header_count K ?hs = 1"
    by simp
  from run cnt one show ?thesis by blast
qed

theorem headers_add_first_match_or_append_witness:
  "apply_headers
     \<lparr>action = Some ''add'', d_key = Some ''Accept'', d_value = Some ''text/html'',
      d_type = None\<rparr>
     \<lparr>header = Some [\<lparr>h_key = ''Host'', h_value = ''a'', h_type = None\<rparr>,
                     \<lparr>h_key = ''Accept'', h_value = ''*'', h_type = Some ''default''\<rparr>],
      url = None\<rparr>
   = Inr \<lparr>header = Some [\<lparr>h_key = ''Host'', h_value = ''a'', h_type = None\<rparr>,
                          \<lparr>h_key = ''Accept'', h_value = ''text/html'',
                           h_type = Some ''default''\<rparr>],
          url = None\<rparr>
   \<and> apply_headers
     \<lparr>action = Some ''add'', d_key = Some ''X-Trace'', d_value = Some ''1'', d_type = None\<rparr>
     \<lparr>header = None, url = None\<rparr>
   = Inr \<lparr>header = Some [\<lparr>h_key = ''X-Trace'', h_value = ''1'', h_type = Some ''text''\<rparr>],
          url = None\<rparr>"
  using headers_add_first_match_or_append
          [of "\<lparr>action = Some ''add'', d_key = Some ''Accept'', d_value = Some ''text/html'',
                d_type = None\<rparr>" "''Accept''" "''text/html''"
              "\<lparr>header = Some [\<lparr>h_key = ''Host'', h_value = ''a'', h_type = None\<rparr>,
                              \<lparr>h_key = ''Accept'', h_value = ''*'', h_type = Some ''default''\<rparr>],
                url = None\<rparr>"]
        headers_add_first_match_or_append
          [of "\<lparr>action = Some ''add'', d_key = Some ''X-Trace'', d_value = Some ''1'',
                d_type = None\<rparr>" "''X-Trace''" "''1''" "\<lparr>header = None, url = None\<rparr>"]
  by (simp add: headers_of_def)

text \<open>
  C3: a headers remove directive for key \<open>K\<close> leaves a request without a header field
  as it is; otherwise the new header list is the old one without the headers whose key
  is \<open>K\<close>, the others in their order, so that no header with key \<open>K\<close> remains.
\<close>

theorem headers_remove_all:
  assumes "action d = Some ''remove''" and "d_key d = Some K"
  shows "(header r = None \<longrightarrow> apply_headers d r = Inr r) \<and>
         (\<forall>hs. header r = Some hs \<longrightarrow>
            apply_headers d r = Inr (r\<lparr>header := Some (filter (\<lambda>h. h_key h \<noteq> K) hs)\<rparr>) \<and>
            header_count K (filter (\<lambda>h. h_key h \<noteq> K) hs) = 0)"
  using assms
  by (simp add: apply_headers_def header_filter_result header_count_def)

theorem headers_remove_all_witness:
  "apply_headers
     \<lparr>action = Some ''remove'', d_key = Some ''X'', d_value = None, d_type = None\<rparr>
     \<lparr>header = None, url = None\<rparr>
   = Inr \<lparr>header = None, url = None\<rparr>
   \<and> apply_headers
     \<lparr>action = Some ''remove'', d_key = Some ''X'', d_value = None, d_type = None\<rparr>
     \<lparr>header = Some [\<lparr>h_key = ''X'', h_value = ''1'', h_type = None\<rparr>,
                     \<lparr>h_key = ''A'', h_value = ''2'', h_type = None\<rparr>,
                     \<lparr>h_key = ''X'', h_value = ''3'', h_type = None\<rparr>,
                     \<lparr>h_key = ''B'', h_value = ''4'', h_type = None\<rparr>],
      url = None\<rparr>
   = Inr \<lparr>header = Some [\<lparr>h_key = ''A'', h_value = ''2'', h_type = None\<rparr>,
                          \<lparr>h_key = ''B'', h_value = ''4'', h_type = None\<rparr>],
          url = None\<rparr>"
  using headers_remove_all
          [of "\<lparr>action = Some ''remove'', d_key = Some ''X'', d_value = None, d_type = None\<rparr>"
              "''X''" "\<lparr>header = None, url = None\<rparr>"]
        headers_remove_all
          [of "\<lparr>action = Some ''remove'', d_key = Some ''X'', d_value = None, d_type = None\<rparr>"
              "''X''"
              "\<lparr>header = Some [\<lparr>h_key = ''X'', h_value = ''1'', h_type = None\<rparr>,
                              \<lparr>h_key = ''A'', h_value = ''2'', h_type = None\<rparr>,
                              \<lparr>h_key = ''X'', h_value = ''3'', h_type = None\<rparr>,
                              \<lparr>h_key = ''B'', h_value = ''4'', h_type = None\<rparr>],
                url = None\<rparr>"]
  by simp

section \<open>Query parameters\<close>

text \<open>
  C1, as the claim states it, fails on an object url whose query list already has two
  entries with the key: the loop stops at the first match, the second entry stays, and
  two entries carry the key afterwards.
\<close>

theorem query_add_keeps_duplicates:
  "apply_query
     \<lparr>action = Some ''add'', d_key = Some ''id'', d_value = Some ''9'', d_type = None\<rparr>
     \<lparr>header = None,
      url = Some (UrlObj
        \<lparr>raw = ''http://a.b/c?id=1&id=2'', protocol = Some (PyStr ''http''),
         host = Some [''a'', ''b''], path = Some [''c''],
         query = Some [\<lparr>q_key = ''id'', q_value = ''1''\<rparr>,
                       \<lparr>q_key = ''id'', q_value = ''2''\<rparr>]\<rparr>)\<rparr>
   = Inr \<lparr>header = None,
          url = Some (UrlObj
            \<lparr>raw = ''http://a.b/c?id=9&id=2'', protocol = Some (PyStr ''http''),
             host = Some [''a'', ''b''], path = Some [''c''],
             query = Some [\<lparr>q_key = ''id'', q_value = ''9''\<rparr>,
                           \<lparr>q_key = ''id'', q_value = ''2''\<rparr>]\<rparr>)\<rparr>
   \<and> param_count ''id'' [\<lparr>q_key = ''id'', q_value = ''9''\<rparr>,
                        \<lparr>q_key = ''id'', q_value = ''2''\<rparr>] = 2"
  by (simp add: apply_query_def to_object_def ensure_query_def query_of_def Let_def
      rebuild_raw_def protocol_text_def format_param_def param_count_def)

text \<open>
  C1, amended: on a request that has a url, a query_params add directive with key \<open>K\<close>
  and value \<open>V\<close> succeeds and leaves the url in object form. With \<open>u0\<close> the url as an
  object before the add (a string url converted, with the empty query list; an object
  url as it is), the new query list is the old one up to the first entry with key \<open>K\<close>,
  then that entry with the value \<open>V\<close>, then the rest unchanged; when no entry has key
  \<open>K\<close>, the old list followed by the new entry. The number of entries with key \<open>K\<close> is the
  old number, or 1 when there was none: exactly one when there was at most one before.
  The new \<open>raw\<close> is what \<open>rebuild_raw\<close> gives on the resulting object, and protocol,
  host and path are those of \<open>u0\<close>.
\<close>

theorem query_add_first_match_or_append:
  assumes "action d = Some ''add''" and "d_key d = Some K" and "d_value d = Some V"
    and "url r = Some x"
  shows "\<exists>u0 u' qs'.
           to_object x = Inr u0 \<and>
           (\<forall>s. x = UrlStr s \<longrightarrow> query_of u0 = []) \<and>
           (\<forall>u. x = UrlObj u \<longrightarrow> u0 = u) \<and>
           apply_query d r = Inr (r\<lparr>url := Some (UrlObj u')\<rparr>) \<and>
           query u' = Some qs' \<and>
           qs' = takeWhile (\<lambda>q. q_key q \<noteq> K) (query_of u0) @
                   (case dropWhile (\<lambda>q. q_key q \<noteq> K) (query_of u0) of
                      [] \<Rightarrow> [\<lparr>q_key = K, q_value = V\<rparr>]
                    | q # rest \<Rightarrow> q\<lparr>q_value := V\<rparr> # rest) \<and>
           param_count K qs' = max 1 (param_count K (query_of u0)) \<and>
           (param_count K (query_of u0) \<le> 1 \<longrightarrow> param_count K qs' = 1) \<and>
           raw u' = rebuild_raw u' \<and>
           protocol u' = protocol u0 \<and> host u' = host u0 \<and> path u' = path u0"
proof -
  from to_object_total [of x] obtain u0 where
    u0: "to_object x = Inr u0"
    and str: "\<forall>s. x = UrlStr s \<longrightarrow> raw u0 = s \<and> query u0 = Some []"
    and obj: "\<forall>u. x = UrlObj u \<longrightarrow> u0 = u"
    by blast
  let ?qs = "takeWhile (\<lambda>q. q_key q \<noteq> K) (query_of u0) @
               (case dropWhile (\<lambda>q. q_key q \<noteq> K) (query_of u0) of
                  [] \<Rightarrow> [\<lparr>q_key = K, q_value = V\<rparr>]
                | q # rest \<Rightarrow> q\<lparr>q_value := V\<rparr> # rest)"
  let ?u = "u0\<lparr>query := Some ?qs\<rparr>\<lparr>raw := rebuild_raw (u0\<lparr>query := Some ?qs\<rparr>)\<rparr>"
  have run: "apply_query d r = Inr (r\<lparr>url := Some (UrlObj ?u)\<rparr>)"
    using query_add_result [OF assms u0] by (simp add: Let_def)
  have str': "\<forall>s. x = UrlStr s \<longrightarrow> query_of u0 = []"
    using str by (simp add: query_of_def)
  have cnt: "param_count K ?qs = max 1 (param_count K (query_of u0))"
    by (rule param_count_first_match)
  then have one: "param_count K (query_of u0) \<le> 1 \<longrightarrow> param_count K ?qs = 1"
    by simp
  have rw: "raw ?u = rebuild_raw ?u"
    by (simp add: rebuild_raw_ignores_raw)
  have q: "query ?u = Some ?qs" by simp
  have fr: "protocol ?u = protocol u0 \<and> host ?u = host u0 \<and> path ?u = path u0" by simp
  from u0 str' obj run q cnt one rw fr show ?thesis by blast
qed

theorem query_add_first_match_or_append_witness:
  "apply_query
     \<lparr>action = Some ''add'', d_key = Some ''page'', d_value = Some ''2'', d_type = None\<rparr>
     \<lparr>header = None,
      url = Some (UrlObj
        \<lparr>raw = ''stale'', protocol = Some (PyStr ''https''),
         host = Some [''a'', ''io''], path = Some [''v1''],
         query = Some [\<lparr>q_key = ''q'', q_value = ''x''\<rparr>,
                       \<lparr>q_key = ''page'', q_value = ''1''\<rparr>]\<rparr>)\<rparr>
   = Inr \<lparr>header = None,
          url = Some (UrlObj
            \<lparr>raw = ''https://a.io/v1?q=x&page=2'', protocol = Some (PyStr ''https''),
             host = Some [''a'', ''io''], path = Some [''v1''],
             query = Some [\<lparr>q_key = ''q'', q_value = ''x''\<rparr>,
                           \<lparr>q_key = ''page'', q_value = ''2''\<rparr>]\<rparr>)\<rparr>"
  using query_add_first_match_or_append
          [of "\<lparr>action = Some ''add'', d_key = Some ''page'', d_value = Some ''2'',
                d_type = None\<rparr>" "''page''" "''2''"
              "\<lparr>header = None,
                url = Some (UrlObj
                  \<lparr>raw = ''stale'', protocol = Some (PyStr ''https''),
                   host = Some [''a'', ''io''], path = Some [''v1''],
                   query = Some [\<lparr>q_key = ''q'', q_value = ''x''\<rparr>,
                                 \<lparr>q_key = ''page'', q_value = ''1''\<rparr>]\<rparr>)\<rparr>"
              "UrlObj
                  \<lparr>raw = ''stale'', protocol = Some (PyStr ''https''),
                   host = Some [''a'', ''io''], path = Some [''v1''],
                   query = Some [\<lparr>q_key = ''q'', q_value = ''x''\<rparr>,
                                 \<lparr>q_key = ''page'', q_value = ''1''\<rparr>]\<rparr>"]
  by (auto simp: to_object_def query_of_def rebuild_raw_def protocol_text_def format_param_def)

text \<open>
  C5: on a request that has a url, a query_params remove directive for key \<open>K\<close> succeeds
  and leaves the url in object form. With \<open>u0\<close> the url as an object before the removal
  (a string url converted, its \<open>raw\<close> the string itself; an object url as it is), the
  new url is \<open>u0\<close> with the query entries whose key is \<open>K\<close> filtered out: no entry with
  key \<open>K\<close> remains, and \<open>raw\<close> is the one of \<open>u0\<close>, not regenerated.
\<close>

theorem query_remove_keeps_raw:
  assumes "action d = Some ''remove''" and "d_key d = Some K" and "url r = Some x"
  shows "\<exists>u0 u'.
           to_object x = Inr u0 \<and>
           (\<forall>s. x = UrlStr s \<longrightarrow> raw u0 = s) \<and>
           (\<forall>u. x = UrlObj u \<longrightarrow> u0 = u) \<and>
           apply_query d r = Inr (r\<lparr>url := Some (UrlObj u')\<rparr>) \<and>
           u' = u0\<lparr>query := Some (filter (\<lambda>q. q_key q \<noteq> K) (query_of u0))\<rparr> \<and>
           param_count K (query_of u') = 0 \<and>
           raw u' = raw u0"
proof -
  from to_object_total [of x] obtain u0 where
    u0: "to_object x = Inr u0"
    and str: "\<forall>s. x = UrlStr s \<longrightarrow> raw u0 = s \<and> query u0 = Some []"
    and obj: "\<forall>u. x = UrlObj u \<longrightarrow> u0 = u"
    by blast
  let ?u = "u0\<lparr>query := Some (filter (\<lambda>q. q_key q \<noteq> K) (query_of u0))\<rparr>"
  have run: "apply_query d r = Inr (r\<lparr>url := Some (UrlObj ?u)\<rparr>)"
    by (rule query_remove_result [OF assms u0])
  have cnt: "param_count K (query_of ?u) = 0"
    by (simp add: query_of_def param_count_def)
  have rw: "raw ?u = raw u0" by simp
  from u0 str obj run cnt rw show ?thesis by blast
qed

theorem query_remove_keeps_raw_witness:
  "apply_query
     \<lparr>action = Some ''remove'', d_key = Some ''page'', d_value = None, d_type = None\<rparr>
     \<lparr>header = None,
      url = Some (UrlObj
        \<lparr>raw = ''https://a.io/v1?page=1&q=x&page=3'', protocol = Some (PyStr ''https''),
         host = Some [''a'', ''io''], path = Some [''v1''],
         query = Some [\<lparr>q_key = ''page'', q_value = ''1''\<rparr>,
                       \<lparr>q_key = ''q'', q_value = ''x''\<rparr>,
                       \<lparr>q_key = ''page'', q_value = ''3''\<rparr>]\<rparr>)\<rparr>
   = Inr \<lparr>header = None,
          url = Some (UrlObj
            \<lparr>raw = ''https://a.io/v1?page=1&q=x&page=3'', protocol = Some (PyStr ''https''),
             host = Some [''a'', ''io''], path = Some [''v1''],
             query = Some [\<lparr>q_key = ''q'', q_value = ''x''\<rparr>]\<rparr>)\<rparr>"
  using query_remove_keeps_raw
          [of "\<lparr>action = Some ''remove'', d_key = Some ''page'', d_value = None,
                d_type = None\<rparr>" "''page''"
              "\<lparr>header = None,
                url = Some (UrlObj
                  \<lparr>raw = ''https://a.io/v1?page=1&q=x&page=3'',
                   protocol = Some (PyStr ''https''),
                   host = Some [''a'', ''io''], path = Some [''v1''],
                   query = Some [\<lparr>q_key = ''page'', q_value = ''1''\<rparr>,
                                 \<lparr>q_key = ''q'', q_value = ''x''\<rparr>,
                                 \<lparr>q_key = ''page'', q_value = ''3''\<rparr>]\<rparr>)\<rparr>"
              "UrlObj
                  \<lparr>raw = ''https://a.io/v1?page=1&q=x&page=3'',
                   protocol = Some (PyStr ''https''),
                   host = Some [''a'', ''io''], path = Some [''v1''],
                   query = Some [\<lparr>q_key = ''page'', q_value = ''1''\<rparr>,
                                 \<lparr>q_key = ''q'', q_value = ''x''\<rparr>,
                                 \<lparr>q_key = ''page'', q_value = ''3''\<rparr>]\<rparr>"]
  by (auto simp: to_object_def query_of_def)

section \<open>String urls and the rebuilt raw\<close>

text \<open>
  C6: the conversion of a string url never fails; the object it gives has the empty
  query list, whatever follows a \<open>?\<close> in the string, and its \<open>raw\<close> is the string
  itself.
\<close>

theorem normalize_url_empty_query_raw_kept:
  "\<exists>u. normalize_url s = Inr u \<and> query u = Some [] \<and> raw u = s"
  using normalize_url_total [of s] by fastforce

text \<open>
  C7: a string url without \<open>://\<close>. Line 143 stores the key \<open>protocol\<close> with the value
  \<^verbatim>\<open>None\<close>, so the key is not missing, the default of line 169 is not taken, and the
  regenerated \<open>raw\<close> begins with \<open>None://\<close>, not with \<open>http://\<close>.
\<close>

theorem query_add_without_scheme_gives_None_protocol:
  "apply_query
     \<lparr>action = Some ''add'', d_key = Some ''limit'', d_value = Some ''10'', d_type = None\<rparr>
     \<lparr>header = None, url = Some (UrlStr ''api.example.com/v1/users'')\<rparr>
   = Inr \<lparr>header = None,
          url = Some (UrlObj
            \<lparr>raw = ''None://api.example.com/v1/users?limit=10'',
             protocol = Some PyNone,
             host = Some [''api'', ''example'', ''com''],
             path = Some [''v1'', ''users''],
             query = Some [\<lparr>q_key = ''limit'', q_value = ''10''\<rparr>]\<rparr>)\<rparr>"
  by (simp add: apply_query_def to_object_def normalize_url_def str_split_def index_def
      ensure_query_def query_of_def Let_def new_param_def rebuild_raw_def protocol_text_def
      format_param_def)

text \<open>
  C8: the string url \<open>https://api.example.com/v1/users\<close> and the directive
  query_params add with key \<open>limit\<close> and value \<open>10\<close>.
\<close>

theorem query_add_example:
  "apply_query
     \<lparr>action = Some ''add'', d_key = Some ''limit'', d_value = Some ''10'', d_type = None\<rparr>
     \<lparr>header = None, url = Some (UrlStr ''https://api.example.com/v1/users'')\<rparr>
   = Inr \<lparr>header = None,
          url = Some (UrlObj
            \<lparr>raw = ''https://api.example.com/v1/users?limit=10'',
             protocol = Some (PyStr ''https''),
             host = Some [''api'', ''example'', ''com''],
             path = Some [''v1'', ''users''],
             query = Some [\<lparr>q_key = ''limit'', q_value = ''10''\<rparr>]\<rparr>)\<rparr>"
  by (simp add: apply_query_def to_object_def normalize_url_def str_split_def index_def
      ensure_query_def query_of_def Let_def new_param_def rebuild_raw_def protocol_text_def
      format_param_def)

text \<open>
  C10: on an object url, a query_params add directive with a key and a value always
  returns, whichever of protocol, host and path are missing; the new \<open>raw\<close> is the
  protocol text, \<open>://\<close>, the host segments joined by dots, \<open>/\<close>, the path segments joined
  by slashes, \<open>?\<close> and the query entries joined by \<open>&\<close>, where a missing protocol gives
  \<open>http\<close> and a missing host or path gives the empty string.
\<close>

theorem rebuild_raw_total_with_defaults:
  assumes "action d = Some ''add''" and "d_key d = Some K" and "d_value d = Some V"
    and "url r = Some (UrlObj u)"
  shows "\<exists>u'. apply_query d r = Inr (r\<lparr>url := Some (UrlObj u')\<rparr>) \<and>
           raw u' =
             (case protocol u of None \<Rightarrow> ''http'' | Some p \<Rightarrow> protocol_text u) @ ''://'' @
             (case host u of None \<Rightarrow> [] | Some hs \<Rightarrow> join ''.'' hs) @ ''/'' @
             (case path u of None \<Rightarrow> [] | Some ps \<Rightarrow> join ''/'' ps) @ ''?'' @
             join ''&'' (map format_param (query_of u'))"
proof -
  have u0: "to_object (UrlObj u) = Inr u"
    by (simp add: to_object_def)
  let ?qs = "takeWhile (\<lambda>q. q_key q \<noteq> K) (query_of u) @
               (case dropWhile (\<lambda>q. q_key q \<noteq> K) (query_of u) of
                  [] \<Rightarrow> [\<lparr>q_key = K, q_value = V\<rparr>]
                | q # rest \<Rightarrow> q\<lparr>q_value := V\<rparr> # rest)"
  let ?u = "u\<lparr>query := Some ?qs\<rparr>\<lparr>raw := rebuild_raw (u\<lparr>query := Some ?qs\<rparr>)\<rparr>"
  have run: "apply_query d r = Inr (r\<lparr>url := Some (UrlObj ?u)\<rparr>)"
    using query_add_result [OF assms(1,2,3,4) u0] by (simp add: Let_def)
  have rw: "raw ?u =
             (case protocol u of None \<Rightarrow> ''http'' | Some p \<Rightarrow> protocol_text u) @ ''://'' @
             (case host u of None \<Rightarrow> [] | Some hs \<Rightarrow> join ''.'' hs) @ ''/'' @
             (case path u of None \<Rightarrow> [] | Some ps \<Rightarrow> join ''/'' ps) @ ''?'' @
             join ''&'' (map format_param (query_of ?u))"
    by (simp add: rebuild_raw_def protocol_text_def query_of_def split: option.splits)
  from run rw show ?thesis by blast
qed

theorem rebuild_raw_total_with_defaults_witness:
  "apply_query
     \<lparr>action = Some ''add'', d_key = Some ''k'', d_value = Some ''v'', d_type = None\<rparr>
     \<lparr>header = None,
      url = Some (UrlObj \<lparr>raw = ''old'', protocol = None, host = None, path = None,
                          query = None\<rparr>)\<rparr>
   = Inr \<lparr>header = None,
          url = Some (UrlObj \<lparr>raw = ''http:///?k=v'', protocol = None, host = None,
                              path = None,
                              query = Some [\<lparr>q_key = ''k'', q_value = ''v''\<rparr>]\<rparr>)\<rparr>"
proof -
  let ?d = "\<lparr>action = Some ''add'', d_key = Some ''k'', d_value = Some ''v'', d_type = None\<rparr>"
  let ?u = "\<lparr>raw = ''old'', protocol = None, host = None, path = None, query = None\<rparr>"
  let ?r = "\<lparr>header = None, url = Some (UrlObj ?u)\<rparr>"
  from rebuild_raw_total_with_defaults [of ?d "''k''" "''v''" ?r ?u]
  obtain u' where run: "apply_query ?d ?r = Inr (?r\<lparr>url := Some (UrlObj u')\<rparr>)"
    and rw: "raw u' = ''http:///?'' @ join ''&'' (map format_param (query_of u'))"
    by auto
  have "apply_query ?d ?r =
          Inr (?r\<lparr>url := Some (UrlObj (?u\<lparr>query := Some [\<lparr>q_key = ''k'', q_value = ''v''\<rparr>],
                                          raw := rebuild_raw
                                            (?u\<lparr>query := Some [\<lparr>q_key = ''k'', q_value = ''v''\<rparr>]\<rparr>)\<rparr>))\<rparr>)"
    by (simp add: apply_query_def to_object_def ensure_query_def query_of_def new_param_def
        Let_def)
  with run have "u' = ?u\<lparr>query := Some [\<lparr>q_key = ''k'', q_value = ''v''\<rparr>],
                         raw := rebuild_raw
                           (?u\<lparr>query := Some [\<lparr>q_key = ''k'', q_value = ''v''\<rparr>]\<rparr>)\<rparr>"
    by simp
  with rw run show ?thesis
    by (simp add: query_of_def format_param_def)
qed

section \<open>The walk\<close>

text \<open>
  C4: the walk returns exactly when every request node of the tree, at whatever depth,
  takes all the directives without an exception; the tree it returns has as many
  request nodes and the same depth, and its request nodes are, in the order of the
  walk, the results of applying all the directives to the request nodes of the input.
  The request nodes are those of \<open>requests_of\<close>, which enters the nested items of an
  item whether or not the item has a request.
\<close>

theorem process_items_covers_all_requests:
  "((\<exists>its'. process_items ups its = Inr its') =
      (\<forall>r \<in> set (requests_of its). \<exists>r'. apply_updates ups r = Inr r')) \<and>
   (\<forall>its'. process_items ups its = Inr its' \<longrightarrow>
      length (requests_of its') = length (requests_of its) \<and>
      depth its' = depth its \<and>
      (\<forall>i < length (requests_of its).
         apply_updates ups (requests_of its ! i) = Inr (requests_of its' ! i)))"
proof -
  have ok: "(\<exists>its'. process_items ups its = Inr its') =
      (\<forall>r \<in> set (requests_of its). \<exists>r'. apply_updates ups r = Inr r')"
    using process_total(1) [of its ups] process_success_requests [of ups its]
    by blast
  have each: "length (requests_of its') = length (requests_of its) \<and>
      depth its' = depth its \<and>
      (\<forall>i < length (requests_of its).
         apply_updates ups (requests_of its ! i) = Inr (requests_of its' ! i))"
    if run: "process_items ups its = Inr its'" for its'
  proof -
    have m: "map Inr (requests_of its') = map (apply_updates ups) (requests_of its)"
      by (rule process_requests(1) [OF run])
    then have l: "length (requests_of its') = length (requests_of its)"
      by (rule map_eq_imp_length_eq)
    have "apply_updates ups (requests_of its ! i) = Inr (requests_of its' ! i)"
      if "i < length (requests_of its)" for i
    proof -
      have "map (apply_updates ups) (requests_of its) ! i = map Inr (requests_of its') ! i"
        using m by simp
      with that l show ?thesis by simp
    qed
    with l process_depth(1) [OF run] show ?thesis by simp
  qed
  from ok each show ?thesis by blast
qed

theorem process_items_covers_all_requests_witness:
  "process_items
     [(''headers'', \<lparr>action = Some ''add'', d_key = Some ''T'', d_value = Some ''1'',
                     d_type = None\<rparr>)]
     [Item None (Some [Item (Some \<lparr>header = None, url = None\<rparr>)
                         (Some [Item (Some \<lparr>header = Some [], url = None\<rparr>) None])]),
      Item (Some \<lparr>header = None, url = Some (UrlStr ''a'')\<rparr>) None]
   = Inr
     [Item None (Some [Item (Some \<lparr>header = Some [\<lparr>h_key = ''T'', h_value = ''1'',
                                                      h_type = Some ''text''\<rparr>],
                                   url = None\<rparr>)
                         (Some [Item (Some \<lparr>header = Some [\<lparr>h_key = ''T'', h_value = ''1'',
                                                               h_type = Some ''text''\<rparr>],
                                            url = None\<rparr>) None])]),
      Item (Some \<lparr>header = Some [\<lparr>h_key = ''T'', h_value = ''1'', h_type = Some ''text''\<rparr>],
                  url = Some (UrlStr ''a'')\<rparr>) None]
   \<and> depth
     [Item None (Some [Item (Some \<lparr>header = None, url = None\<rparr>)
                         (Some [Item (Some \<lparr>header = Some [], url = None\<rparr>) None])]),
      Item (Some \<lparr>header = None, url = Some (UrlStr ''a'')\<rparr>) None] = 3
   \<and> length (requests_of
     [Item None (Some [Item (Some \<lparr>header = None, url = None\<rparr>)
                         (Some [Item (Some \<lparr>header = Some [], url = None\<rparr>) None])]),
      Item (Some \<lparr>header = None, url = Some (UrlStr ''a'')\<rparr>) None]) = 3"
  using process_items_covers_all_requests
    [of "[(''headers'', \<lparr>action = Some ''add'', d_key = Some ''T'', d_value = Some ''1'',
                     d_type = None\<rparr>)]"
     "[Item None (Some [Item (Some \<lparr>header = None, url = None\<rparr>)
                         (Some [Item (Some \<lparr>header = Some [], url = None\<rparr>) None])]),
      Item (Some \<lparr>header = None, url = Some (UrlStr ''a'')\<rparr>) None]"]
  by (simp add: apply_update_def apply_headers_def headers_of_def new_header_def Let_def)

section \<open>The endpoint\<close>

text \<open>
  C9, as the claim states it, fails: the endpoint never looks at \<open>info\<close>, and a
  directive's missing field raises only where the walk reads it. A document without
  \<open>info\<close> is updated and returned; so is a document under a headers remove directive
  without a key when no request has a header, and a document without any request under
  an add directive that has neither key nor value.
\<close>

theorem bulk_update_succeeds_without_info_or_key:
  "fst (bulk_update id
          [''uploads/c.json'' \<mapsto>
             \<lparr>info = None :: unit option,
              item = Some [Item (Some \<lparr>header = None, url = None\<rparr>) None]\<rparr>]
          \<lparr>filename = Some ''c.json'',
           updates = Some [(''headers'', \<lparr>action = Some ''add'', d_key = Some ''T'',
                                           d_value = Some ''1'', d_type = None\<rparr>)]\<rparr>)
   = Success \<lparr>info = None,
              item = Some [Item (Some \<lparr>header = Some [\<lparr>h_key = ''T'', h_value = ''1'',
                                                         h_type = Some ''text''\<rparr>],
                                      url = None\<rparr>) None]\<rparr>
   \<and> fst (bulk_update id
          [''uploads/c.json'' \<mapsto>
             \<lparr>info = Some (),
              item = Some [Item (Some \<lparr>header = None, url = None\<rparr>) None]\<rparr>]
          \<lparr>filename = Some ''c.json'',
           updates = Some [(''headers'', \<lparr>action = Some ''remove'', d_key = None,
                                           d_value = None, d_type = None\<rparr>)]\<rparr>)
   = Success \<lparr>info = Some (),
              item = Some [Item (Some \<lparr>header = None, url = None\<rparr>) None]\<rparr>
   \<and> fst (bulk_update id
          [''uploads/c.json'' \<mapsto> \<lparr>info = Some (), item = Some [Item None (Some [])]\<rparr>]
          \<lparr>filename = Some ''c.json'',
           updates = Some [(''query_params'', \<lparr>action = Some ''add'', d_key = None,
                                                d_value = None, d_type = None\<rparr>)]\<rparr>)
   = Success \<lparr>info = Some (), item = Some [Item None (Some [])]\<rparr>"
  by (simp add: bulk_update_def open_file_def Let_def apply_update_def apply_headers_def
      headers_of_def new_header_def)

text \<open>
  C9, amended: with the body's \<open>filename\<close> and \<open>updates\<close> present, the file stored, and
  the update types distinct (they are the keys of one dictionary), the endpoint answers
  with an error, and stores nothing, whenever the document has no \<open>item\<close>, or some
  request node of the tree makes an update read a field its directive lacks: the key or
  the value of an add (headers: on any request; query_params: on any request with a
  url), the key of a remove on a request whose header list, or whose object url's query
  list, is not empty. A document without \<open>item\<close> gives the KeyError of that lookup.
\<close>

theorem bulk_update_error_on_missing_field:
  assumes "filename dat = Some fname" and "updates dat = Some ups"
    and "files (''uploads/'' @ secure_filename fname) = Some c"
    and "distinct (map fst ups)"
    and "item c = None \<or>
         (\<exists>its up r. item c = Some its \<and> up \<in> set ups \<and> r \<in> set (requests_of its) \<and>
            missing_field_read up r)"
  shows "(\<exists>e. bulk_update secure_filename files dat = (Server_Error e, files)) \<and>
         (item c = None \<longrightarrow>
            bulk_update secure_filename files dat = (Server_Error (KeyError ''item''), files))"
proof (cases "item c")
  case None
  with assms(1,2,3) show ?thesis
    by (simp add: bulk_update_def open_file_def Let_def)
next
  case (Some its)
  with assms(5) obtain up r where up: "up \<in> set ups" and r: "r \<in> set (requests_of its)"
    and m: "missing_field_read up r"
    by auto
  from missing_field_read_fails [OF assms(4) up m] obtain e
    where "apply_updates ups r = Inl e" by blast
  from process_items_fails [OF r this] obtain e' where "process_items ups its = Inl e'"
    by blast
  with Some assms(1,2,3) show ?thesis
    by (simp add: bulk_update_def open_file_def Let_def)
qed

theorem bulk_update_error_on_missing_field_witness:
  "bulk_update id
     [''uploads/c.json'' \<mapsto> \<lparr>info = Some (), item = None\<rparr>]
     \<lparr>filename = Some ''c.json'', updates = Some []\<rparr>
   = (Server_Error (KeyError ''item''),
      [''uploads/c.json'' \<mapsto> \<lparr>info = Some (), item = None\<rparr>])
   \<and> bulk_update id
     [''uploads/c.json'' \<mapsto>
        \<lparr>info = Some (),
         item = Some [Item None (Some [Item (Some \<lparr>header = None, url = None\<rparr>) None])]\<rparr>]
     \<lparr>filename = Some ''c.json'',
      updates = Some [(''headers'', \<lparr>action = Some ''add'', d_key = Some ''T'',
                                      d_value = None, d_type = None\<rparr>)]\<rparr>
   = (Server_Error (KeyError ''value''),
      [''uploads/c.json'' \<mapsto>
        \<lparr>info = Some (),
         item = Some [Item None (Some [Item (Some \<lparr>header = None, url = None\<rparr>) None])]\<rparr>])"
proof -
  let ?c1 = "\<lparr>info = Some (), item = None\<rparr>"
  let ?d1 = "\<lparr>filename = Some ''c.json'', updates = Some []\<rparr>"
  let ?r = "\<lparr>header = None, url = None\<rparr>"
  let ?its = "[Item None (Some [Item (Some ?r) None])]"
  let ?c2 = "\<lparr>info = Some (), item = Some ?its\<rparr>"
  let ?up = "(''headers'', \<lparr>action = Some ''add'', d_key = Some ''T'', d_value = None,
                            d_type = None\<rparr>)"
  let ?d2 = "\<lparr>filename = Some ''c.json'', updates = Some [?up]\<rparr>"
  have a: "bulk_update id [''uploads/c.json'' \<mapsto> ?c1] ?d1
             = (Server_Error (KeyError ''item''), [''uploads/c.json'' \<mapsto> ?c1])"
    using bulk_update_error_on_missing_field
      [of ?d1 "''c.json''" "[]" "[''uploads/c.json'' \<mapsto> ?c1]" id ?c1]
    by simp
  have m: "missing_field_read ?up ?r"
    by (simp add: missing_field_read_def)
  have "\<exists>its up r. item ?c2 = Some its \<and> up \<in> set [?up] \<and> r \<in> set (requests_of its) \<and>
            missing_field_read up r"
    using m by simp
  then have "\<exists>e. bulk_update id [''uploads/c.json'' \<mapsto> ?c2] ?d2
                 = (Server_Error e, [''uploads/c.json'' \<mapsto> ?c2])"
    using bulk_update_error_on_missing_field
      [of ?d2 "''c.json''" "[?up]" "[''uploads/c.json'' \<mapsto> ?c2]" id ?c2]
    by simp
  then obtain e where e: "bulk_update id [''uploads/c.json'' \<mapsto> ?c2] ?d2
                 = (Server_Error e, [''uploads/c.json'' \<mapsto> ?c2])"
    by blast
  have "fst (bulk_update id [''uploads/c.json'' \<mapsto> ?c2] ?d2) = Server_Error (KeyError ''value'')"
    by (simp add: bulk_update_def open_file_def Let_def apply_update_def apply_headers_def
        headers_of_def new_header_def)
  with e have "e = KeyError ''value''" by simp
  with a e show ?thesis by simp
qed

end
